theory Spec2Isabelle
  imports Complex_Main
begin

section \<open>Data model of \<open>Videotosrt.py\<close>\<close>

text \<open>
  The subtitle generator passes Python dictionaries with the keys \<open>start\<close>, \<open>end\<close>,
  \<open>text\<close>, \<open>confidence\<close> and \<open>speaker\<close> from \<open>_process_results\<close> (one per recognised
  utterance) through \<open>_optimize_segmentation\<close> (one per subtitle cue) to
  \<open>_generate_srt\<close>. Both stages use the same shape, so one record models both.

  Times and confidences are finite Python floats. A float is modelled by the real number
  it denotes. The only float arithmetic of the optimizer is the subtraction in
  \<open>item['end'] - buffer[0]['start']\<close>, which IEEE arithmetic rounds; the optimizer
  therefore takes that subtraction as the parameter \<open>fsub\<close>, and everything proved about
  it holds for every choice of \<open>fsub\<close>, the rounded one included. Python integers are
  unbounded and become \<open>int\<close>; \<open>len\<close> of a string is its number of characters.
\<close>

record segment =
  seg_start :: real
  seg_end :: real
  seg_text :: string
  seg_confidence :: real
  seg_speaker :: string

type_synonym utterance = segment
type_synonym cue = segment

text \<open>The configuration keys read by the modelled functions (\<open>self.config[...]\<close>).\<close>

record config =
  max_duration :: real
  max_chars :: int
  max_lines :: int
  speaker_diarization :: bool

datatype py_error = IndexError

section \<open>Python built-ins used by the code\<close>

text \<open>\<open>sep.join(xs)\<close>.\<close>

fun py_join :: "string \<Rightarrow> string list \<Rightarrow> string" where
  "py_join sep [] = []"
| "py_join sep [x] = x"
| "py_join sep (x # y # ys) = x @ sep @ py_join sep (y # ys)"

text \<open>\<open>np.mean(xs)\<close> of a list of floats, as the exact mean.\<close>

definition np_mean :: "real list \<Rightarrow> real" where
  "np_mean xs = sum_list xs / real (length xs)"

text \<open>
  \<open>s.split('\n')\<close>: the pieces of \<open>s\<close> between line breaks; always at least one
  piece. It is the reading of "the lines of a cue's text" used below.
\<close>

fun split_lines :: "string \<Rightarrow> string list" where
  "split_lines [] = [[]]"
| "split_lines (c # cs) =
     (if c = CHR 0x0A then [] # split_lines cs
      else (case split_lines cs of
              [] \<Rightarrow> [[c]]
            | l # ls \<Rightarrow> (c # l) # ls))"

section \<open>The cue optimizer\<close>

text \<open>
  \<open>_merge_segment\<close> (lines 167-175). The dictionary display evaluates
  \<open>items[0]['start']\<close> first, which raises \<open>IndexError\<close> on an empty list.
\<close>

definition merge_segment :: "segment list \<Rightarrow> py_error + segment" where
  "merge_segment items =
     (if items = [] then Inl IndexError
      else Inr \<lparr> seg_start = seg_start (hd items),
                 seg_end = seg_end (last items),
                 seg_text = py_join [CHR 0x0A] (map seg_text items),
                 seg_confidence = np_mean (map seg_confidence items),
                 seg_speaker = seg_speaker (hd items) \<rparr>)"

text \<open>
  Lines 151-156: the two prospective measures and the three-way test that decides
  whether \<open>item\<close> joins the buffer. \<open>buffer[0]\<close> is read only when the buffer is
  non-empty (line 147 guards it).
\<close>

definition current_duration :: "(real \<Rightarrow> real \<Rightarrow> real) \<Rightarrow> segment list \<Rightarrow> segment \<Rightarrow> real" where
  "current_duration fsub buffer item = fsub (seg_end item) (seg_start (hd buffer))"

definition current_length :: "segment list \<Rightarrow> segment \<Rightarrow> int" where
  "current_length buffer item =
     (\<Sum>i\<leftarrow>buffer. int (length (seg_text i))) + int (length (seg_text item))"

definition fits :: "(real \<Rightarrow> real \<Rightarrow> real) \<Rightarrow> config \<Rightarrow> segment list \<Rightarrow> segment \<Rightarrow> bool" where
  "fits fsub cfg buffer item \<longleftrightarrow>
     current_duration fsub buffer item \<le> max_duration cfg \<and>
     current_length buffer item \<le> max_chars cfg * max_lines cfg \<and>
     int (length buffer) < max_lines cfg"

text \<open>
  One iteration of the \<open>for item in items\<close> loop (lines 146-160) on the loop state
  \<open>(optimized, buffer)\<close>.
\<close>

definition optimize_step ::
  "(real \<Rightarrow> real \<Rightarrow> real) \<Rightarrow> config \<Rightarrow> segment list \<times> segment list \<Rightarrow> segment
     \<Rightarrow> py_error + (segment list \<times> segment list)" where
  "optimize_step fsub cfg st item =
     (case st of (optimized, buffer) \<Rightarrow>
        if buffer = [] then Inr (optimized, buffer @ [item])
        else if fits fsub cfg buffer item then Inr (optimized, buffer @ [item])
        else (case merge_segment buffer of
                Inl e \<Rightarrow> Inl e
              | Inr merged \<Rightarrow> Inr (optimized @ [merged], [item])))"

fun optimize_loop ::
  "(real \<Rightarrow> real \<Rightarrow> real) \<Rightarrow> config \<Rightarrow> segment list \<Rightarrow> segment list \<times> segment list
     \<Rightarrow> py_error + (segment list \<times> segment list)" where
  "optimize_loop fsub cfg [] st = Inr st"
| "optimize_loop fsub cfg (item # items) st =
     (case optimize_step fsub cfg st item of
        Inl e \<Rightarrow> Inl e
      | Inr st' \<Rightarrow> optimize_loop fsub cfg items st')"

text \<open>\<open>_optimize_segmentation\<close> (lines 142-165).\<close>

definition optimize_segmentation ::
  "(real \<Rightarrow> real \<Rightarrow> real) \<Rightarrow> config \<Rightarrow> segment list \<Rightarrow> py_error + segment list" where
  "optimize_segmentation fsub cfg items =
     (case optimize_loop fsub cfg items ([], []) of
        Inl e \<Rightarrow> Inl e
      | Inr (optimized, buffer) \<Rightarrow>
          if buffer \<noteq> [] then
            (case merge_segment buffer of
               Inl e \<Rightarrow> Inl e
             | Inr merged \<Rightarrow> Inr (optimized @ [merged]))
          else Inr optimized)"

text \<open>
  The code keeps no record of which utterances went into a cue: it appends the merge of
  each flushed buffer. \<open>constituents\<close> runs the same loop with the same test and
  records the flushed buffers themselves, so that its \<open>i\<close>-th list is the buffer the
  \<open>i\<close>-th cue was merged from (lemma \<open>optimize_segmentation_constituents\<close>).
\<close>

fun constituents_loop ::
  "(real \<Rightarrow> real \<Rightarrow> real) \<Rightarrow> config \<Rightarrow> segment list \<Rightarrow> segment list list \<Rightarrow> segment list
     \<Rightarrow> segment list list \<times> segment list" where
  "constituents_loop fsub cfg [] groups buffer = (groups, buffer)"
| "constituents_loop fsub cfg (item # items) groups buffer =
     (if buffer = [] then constituents_loop fsub cfg items groups (buffer @ [item])
      else if fits fsub cfg buffer item
        then constituents_loop fsub cfg items groups (buffer @ [item])
      else constituents_loop fsub cfg items (groups @ [buffer]) [item])"

definition constituents ::
  "(real \<Rightarrow> real \<Rightarrow> real) \<Rightarrow> config \<Rightarrow> segment list \<Rightarrow> segment list list" where
  "constituents fsub cfg items =
     (case constituents_loop fsub cfg items [] [] of
        (groups, buffer) \<Rightarrow> if buffer \<noteq> [] then groups @ [buffer] else groups)"

text \<open>The cue a non-empty buffer merges into, for stating results about cues.\<close>

definition merged :: "segment list \<Rightarrow> segment" where
  "merged items =
     \<lparr> seg_start = seg_start (hd items),
       seg_end = seg_end (last items),
       seg_text = py_join [CHR 0x0A] (map seg_text items),
       seg_confidence = np_mean (map seg_confidence items),
       seg_speaker = seg_speaker (hd items) \<rparr>"

text \<open>
  Measurements of a buffer used to state the caps: the total length of the buffered
  texts (the sum of line 152) and the three caps on a whole buffer.
\<close>

definition total_length :: "segment list \<Rightarrow> int" where
  "total_length g = (\<Sum>i\<leftarrow>g. int (length (seg_text i)))"

definition within_caps :: "(real \<Rightarrow> real \<Rightarrow> real) \<Rightarrow> config \<Rightarrow> segment list \<Rightarrow> bool" where
  "within_caps fsub cfg g \<longleftrightarrow>
     fsub (seg_end (last g)) (seg_start (hd g)) \<le> max_duration cfg \<and>
     total_length g \<le> max_chars cfg * max_lines cfg \<and>
     int (length g) \<le> max_lines cfg"

section \<open>The timecode formatter\<close>

text \<open>
  \<open>str(n)\<close> of a non-negative integer, and the zero padding of the format
  specifications \<open>02\<close> and \<open>06.3f\<close>. Zero padding is sign-aware: the sign comes first
  and counts towards the width.
\<close>

definition digit_char :: "nat \<Rightarrow> char" where
  "digit_char d = ''0123456789'' ! d"

fun str_nat :: "nat \<Rightarrow> string" where
  "str_nat n = (if n < 10 then [digit_char n] else str_nat (n div 10) @ [digit_char (n mod 10)])"

declare str_nat.simps [simp del]

definition zfill :: "nat \<Rightarrow> string \<Rightarrow> string" where
  "zfill w s = replicate (w - length s) (CHR ''0'') @ s"

definition format_02d :: "int \<Rightarrow> string" where
  "format_02d i =
     (if i < 0 then CHR ''-'' # zfill 1 (str_nat (nat (- i))) else zfill 2 (str_nat (nat i)))"

text \<open>
  Float formatting and \<open>round\<close> round the exact value of the float to the nearest
  decimal, ties to the even digit.
\<close>

definition round_half_even :: "real \<Rightarrow> int" where
  "round_half_even x =
     (let f = \<lfloor>x\<rfloor>; d = x - of_int f
      in if d < 1 / 2 then f
         else if 1 / 2 < d then f + 1
         else if even f then f else f + 1)"

definition format_06_3f :: "real \<Rightarrow> string" where
  "format_06_3f x =
     (let k = nat (round_half_even (\<bar>x\<bar> * 1000));
          body = str_nat (k div 1000) @ ''.'' @ zfill 3 (str_nat (k mod 1000))
      in if x < 0 then CHR ''-'' # zfill 5 body else zfill 6 body)"

text \<open>
  The arithmetic of Python floats (IEEE 754 binary64, round to nearest, ties to even). A
  float operation returns the float nearest to the exact result: \<open>float_round\<close> rounds
  a real number to 53 significant bits, with the fixed spacing \<open>2 ^ - 1074\<close> below
  \<open>2 ^ - 1022\<close>. Results of magnitude \<open>2 ^ 1024\<close> and more, which are infinite in
  Python, do not arise in the formatter: its intermediate results never exceed its
  argument.
\<close>

definition float_round :: "real \<Rightarrow> real" where
  "float_round x =
     (if x = 0 then 0
      else (let e = max \<lfloor>log 2 \<bar>x\<bar>\<rfloor> (- 1022);
                ulp = 2 powr (of_int e - 52)
            in of_int (round_half_even (x / ulp)) * ulp))"

definition float_add :: "real \<Rightarrow> real \<Rightarrow> real" where
  "float_add x y = float_round (x + y)"

definition float_sub :: "real \<Rightarrow> real \<Rightarrow> real" where
  "float_sub x y = float_round (x - y)"

definition float_div :: "real \<Rightarrow> real \<Rightarrow> real" where
  "float_div x y = float_round (x / y)"

text \<open>
  The C function \<open>fmod(x, y)\<close>, for \<open>y \<noteq> 0\<close>: the remainder of the division truncated
  towards zero, with the sign of \<open>x\<close>. It is computed exactly.
\<close>

definition c_fmod :: "real \<Rightarrow> real \<Rightarrow> real" where
  "c_fmod x y = x - y * of_int (if 0 \<le> x / y then \<lfloor>x / y\<rfloor> else \<lceil>x / y\<rceil>)"

text \<open>
  \<open>divmod(vx, wx)\<close> on floats, for \<open>wx \<noteq> 0\<close>, as the interpreter computes it: the
  remainder is \<open>fmod(vx, wx)\<close>, moved to the sign of \<open>wx\<close>; the quotient is the float
  division of the float difference \<open>vx - mod\<close> by \<open>wx\<close>, brought to a whole number.
  The quotient is therefore rounded twice, and is the exact floor of \<open>vx / wx\<close> only
  while \<open>vx - mod\<close> and the quotient are floats, as they are below \<open>2 ^ 53\<close>.
  \<open>int(x)\<close> truncates towards zero.
\<close>

definition py_divmod :: "real \<Rightarrow> real \<Rightarrow> real \<times> real" where
  "py_divmod vx wx =
     (let m0 = c_fmod vx wx;
          d0 = float_div (float_sub vx m0) wx;
          (m, d) = (if m0 \<noteq> 0 \<and> ((wx < 0) \<noteq> (m0 < 0))
                    then (float_add m0 wx, float_sub d0 1) else (m0, d0));
          floordiv = (if d \<noteq> 0
                      then (let f = of_int \<lfloor>d\<rfloor>
                            in if 1 / 2 < float_sub d f then float_add f 1 else f)
                      else 0)
      in (floordiv, m))"

definition py_int :: "real \<Rightarrow> int" where
  "py_int x = (if 0 \<le> x then \<lfloor>x\<rfloor> else \<lceil>x\<rceil>)"

text \<open>\<open>s.replace(a, b)\<close> for single characters \<open>a\<close> and \<open>b\<close>.\<close>

definition py_replace :: "char \<Rightarrow> char \<Rightarrow> string \<Rightarrow> string" where
  "py_replace a b s = map (\<lambda>c. if c = a then b else c) s"

text \<open>\<open>_format_time\<close> (lines 187-190).\<close>

definition format_time :: "real \<Rightarrow> string" where
  "format_time seconds =
     (let (hours, remainder) = py_divmod seconds 3600;
          (minutes, seconds') = py_divmod remainder 60
      in py_replace (CHR ''.'') (CHR '','')
           (format_02d (py_int hours) @ '':'' @ format_02d (py_int minutes) @ '':'' @
            format_06_3f seconds'))"

text \<open>
  The reading of the timecode that truncates the milliseconds, for comparison with
  \<open>format_time\<close>: hours, minutes and whole seconds of \<open>\<lfloor>s\<rfloor>\<close>, then the first three
  decimals of the fractional second, cut off.
\<close>

definition truncated_timecode :: "real \<Rightarrow> string" where
  "truncated_timecode s =
     (let ms = nat \<lfloor>s * 1000\<rfloor>
      in zfill 2 (str_nat (ms div 3600000)) @ '':'' @
         zfill 2 (str_nat (ms div 60000 mod 60)) @ '':'' @
         zfill 2 (str_nat (ms div 1000 mod 60)) @ '','' @
         zfill 3 (str_nat (ms mod 1000)))"

section \<open>The cue renderer\<close>

text \<open>
  The loop of \<open>_generate_srt\<close> (lines 179-183): \<open>idx\<close> is the counter of
  \<open>enumerate(segments, 1)\<close>, \<open>srt_content\<close> the list being appended to.
\<close>

fun srt_loop :: "config \<Rightarrow> nat \<Rightarrow> segment list \<Rightarrow> string list \<Rightarrow> string list" where
  "srt_loop cfg idx [] srt_content = srt_content"
| "srt_loop cfg idx (seg # segments) srt_content =
     (let start = format_time (seg_start seg);
          end' = format_time (seg_end seg);
          speaker = (if speaker_diarization cfg then ''['' @ seg_speaker seg @ ''] '' else '''')
      in srt_loop cfg (Suc idx) segments
           (srt_content @
            [str_nat idx @ ''\<newline>'' @ start @ '' --> '' @ end' @ ''\<newline>'' @
             speaker @ seg_text seg @ ''\<newline>'']))"

text \<open>
  \<open>_generate_srt\<close> (lines 177-185). Its effect is \<open>Path(output_path).write_text(...)\<close>;
  the file system is a map from paths to file contents.
\<close>

definition generate_srt ::
  "config \<Rightarrow> segment list \<Rightarrow> string \<Rightarrow> (string \<rightharpoonup> string) \<Rightarrow> (string \<rightharpoonup> string)" where
  "generate_srt cfg segments output_path fs =
     fs(output_path \<mapsto> py_join ''\<newline>'' (srt_loop cfg 1 segments []))"

section \<open>The utterance normalizer\<close>

text \<open>
  A word of a recognizer result (keys \<open>word\<close>, \<open>start\<close>, \<open>end\<close>, \<open>conf\<close>). A result
  group is what \<open>res.get('result')\<close> returns: \<open>None\<close> when the key is missing, else the
  list of words.
\<close>

record word_token =
  tok_word :: string
  tok_start :: real
  tok_end :: real
  tok_conf :: real

type_synonym result_group = "word_token list option"

text \<open>
  \<open>round(x, n)\<close>, \<open>str.strip()\<close> and \<open>str.capitalize()\<close>. Characters are taken to be
  ASCII: the white space of \<open>strip\<close> is then the codes 9-13 and 28-32, and only the
  letters a-z and A-Z change case.
\<close>

definition py_round :: "real \<Rightarrow> nat \<Rightarrow> real" where
  "py_round x n = of_int (round_half_even (x * 10 ^ n)) / 10 ^ n"

definition is_space :: "char \<Rightarrow> bool" where
  "is_space c = (let n = (of_char c :: nat) in (9 \<le> n \<and> n \<le> 13) \<or> (28 \<le> n \<and> n \<le> 32))"

definition py_strip :: "string \<Rightarrow> string" where
  "py_strip s = rev (dropWhile is_space (rev (dropWhile is_space s)))"

definition to_upper :: "char \<Rightarrow> char" where
  "to_upper c = (let n = (of_char c :: nat) in if 97 \<le> n \<and> n \<le> 122 then char_of (n - 32) else c)"

definition to_lower :: "char \<Rightarrow> char" where
  "to_lower c = (let n = (of_char c :: nat) in if 65 \<le> n \<and> n \<le> 90 then char_of (n + 32) else c)"

definition py_capitalize :: "string \<Rightarrow> string" where
  "py_capitalize s = (case s of [] \<Rightarrow> [] | c # cs \<Rightarrow> to_upper c # map to_lower cs)"

text \<open>
  \<open>_restore_punctuation\<close> (lines 108-117). The punctuation model is an external
  collaborator: \<open>self.punctuator\<close> is \<open>None\<close> when the \<open>punctuation\<close> option is off,
  and otherwise a function from text to text.
\<close>

definition restore_punctuation :: "(string \<Rightarrow> string) option \<Rightarrow> string \<Rightarrow> string" where
  "restore_punctuation punctuator txt =
     (case punctuator of Some p \<Rightarrow> p txt | None \<Rightarrow> txt)"

definition terminal_marks :: "char set" where
  "terminal_marks = {CHR ''.'', CHR ''?'', CHR ''!''}"

text \<open>\<open>_process_results\<close> (lines 119-140): the loop, with \<open>processed\<close> as accumulator.\<close>

fun process_loop ::
  "(string \<Rightarrow> string) option \<Rightarrow> result_group list \<Rightarrow> segment list \<Rightarrow> segment list" where
  "process_loop punctuator [] processed = processed"
| "process_loop punctuator (res # results) processed =
     (case res of
        None \<Rightarrow> process_loop punctuator results processed
      | Some words \<Rightarrow>
          if words = [] then process_loop punctuator results processed
          else
            (let start = py_round (tok_start (hd words)) 2;
                 end' = py_round (tok_end (last words)) 2;
                 raw_text = py_join '' '' (map tok_word words);
                 text0 = restore_punctuation punctuator raw_text;
                 text1 = (if text0 \<noteq> [] \<and> last text0 \<notin> terminal_marks
                          then text0 @ ''.'' else text0)
             in process_loop punctuator results
                  (processed @
                   [\<lparr> seg_start = start,
                      seg_end = end',
                      seg_text = py_capitalize (py_strip text1),
                      seg_confidence = np_mean (map tok_conf words),
                      seg_speaker = ''SPK1'' \<rparr>])))"

definition process_results ::
  "(string \<Rightarrow> string) option \<Rightarrow> result_group list \<Rightarrow> segment list" where
  "process_results punctuator results = process_loop punctuator results []"

section \<open>Concrete inputs\<close>

text \<open>
  The defaults that \<open>_validate_config\<close> (lines 47-54) and the command line give the
  options, and the three utterances of the packing scenario of the specification.
\<close>

definition default_config :: config where
  "default_config =
     \<lparr> max_duration = 8, max_chars = 45, max_lines = 2, speaker_diarization = False \<rparr>"

definition utt :: "real \<Rightarrow> real \<Rightarrow> string \<Rightarrow> segment" where
  "utt s e t =
     \<lparr> seg_start = s, seg_end = e, seg_text = t, seg_confidence = 1, seg_speaker = ''SPK1'' \<rparr>"

definition scenario :: "segment list" where
  "scenario = [utt 0 1.5 ''hello'', utt 1.6 3 ''world'', utt 3.1 9.5 ''third'']"

text \<open>An utterance whose text contains a line break.\<close>

definition two_line_utterance :: segment where
  "two_line_utterance = utt 0 1 ''A\<newline>b.''"

text \<open>
  A configuration with a small line width and two utterances the optimizer merges
  although the first is wider than a line; a recognised word that is the empty string.
\<close>

definition narrow_config :: config where
  "narrow_config =
     \<lparr> max_duration = 8, max_chars = 10, max_lines = 2, speaker_diarization = False \<rparr>"

definition long_line_items :: "segment list" where
  "long_line_items = [utt 0 1 ''Good morning.'', utt 1 2 ''Hi.'']"

definition silent_word :: word_token where
  "silent_word = \<lparr> tok_word = '''', tok_start = 0, tok_end = 1, tok_conf = 1 \<rparr>"


section \<open>Properties of the optimizer\<close>

lemma merge_segment_merged: "items \<noteq> [] \<Longrightarrow> merge_segment items = Inr (merged items)"
  by (simp add: merge_segment_def merged_def)

lemma constituents_loop_concat:
  "constituents_loop fsub cfg items groups buffer = (gs, b) \<Longrightarrow>
     concat gs @ b = concat groups @ buffer @ items"
  by (induction items arbitrary: groups buffer) (auto split: if_splits)

lemma constituents_loop_nonempty:
  "constituents_loop fsub cfg items groups buffer = (gs, b) \<Longrightarrow>
     [] \<notin> set groups \<Longrightarrow> [] \<notin> set gs"
  by (induction items arbitrary: groups buffer) (auto split: if_splits)

lemma optimize_loop_constituents:
  "[] \<notin> set groups \<Longrightarrow>
   constituents_loop fsub cfg items groups buffer = (gs, b) \<Longrightarrow>
     optimize_loop fsub cfg items (map merged groups, buffer) = Inr (map merged gs, b)"
proof (induction items arbitrary: groups buffer)
  case Nil
  then show ?case by simp
next
  case (Cons item items)
  show ?case
  proof (cases "buffer = [] \<or> fits fsub cfg buffer item")
    case True
    with Cons.prems have "constituents_loop fsub cfg items groups (buffer @ [item]) = (gs, b)"
      by (auto split: if_splits)
    from Cons.IH [OF Cons.prems(1) this] True show ?thesis
      by (auto simp: optimize_step_def)
  next
    case False
    with Cons.prems have c: "constituents_loop fsub cfg items (groups @ [buffer]) [item] = (gs, b)"
      by (auto split: if_splits)
    from False Cons.prems have "[] \<notin> set (groups @ [buffer])" by auto
    from Cons.IH [OF this c] False show ?thesis
      by (simp add: optimize_step_def merge_segment_merged)
  qed
qed

lemma optimize_segmentation_constituents:
  "optimize_segmentation fsub cfg items = Inr (map merged (constituents fsub cfg items))"
proof -
  obtain gs b where c: "constituents_loop fsub cfg items [] [] = (gs, b)"
    by (cases "constituents_loop fsub cfg items [] []")
  have "optimize_loop fsub cfg items (map merged [], []) = Inr (map merged gs, b)"
    by (rule optimize_loop_constituents [OF _ c]) simp
  with c show ?thesis
    by (simp add: optimize_segmentation_def constituents_def merge_segment_merged)
qed

lemma constituents_nonempty: "[] \<notin> set (constituents fsub cfg items)"
proof -
  obtain gs b where c: "constituents_loop fsub cfg items [] [] = (gs, b)"
    by (cases "constituents_loop fsub cfg items [] []")
  from constituents_loop_nonempty [OF c] c show ?thesis
    by (simp add: constituents_def)
qed

lemma concat_constituents: "concat (constituents fsub cfg items) = items"
proof -
  obtain gs b where c: "constituents_loop fsub cfg items [] [] = (gs, b)"
    by (cases "constituents_loop fsub cfg items [] []")
  from constituents_loop_concat [OF c] c show ?thesis
    by (auto simp: constituents_def)
qed

lemma fits_within_caps:
  "buffer \<noteq> [] \<Longrightarrow> fits fsub cfg buffer item \<Longrightarrow> within_caps fsub cfg (buffer @ [item])"
  by (simp add: fits_def within_caps_def current_duration_def current_length_def total_length_def)

lemma constituents_loop_caps:
  "constituents_loop fsub cfg items groups buffer = (gs, b) \<Longrightarrow>
   (\<forall>g\<in>set groups. 1 < length g \<longrightarrow> within_caps fsub cfg g) \<Longrightarrow>
   (1 < length buffer \<longrightarrow> within_caps fsub cfg buffer) \<Longrightarrow>
     (\<forall>g\<in>set gs. 1 < length g \<longrightarrow> within_caps fsub cfg g) \<and>
     (1 < length b \<longrightarrow> within_caps fsub cfg b)"
proof (induction items arbitrary: groups buffer)
  case Nil
  then show ?case by simp
next
  case (Cons item items)
  show ?case
  proof (cases "buffer = []")
    case True
    with Cons.prems have "constituents_loop fsub cfg items groups [item] = (gs, b)"
      by simp
    from Cons.IH [OF this Cons.prems(2)] show ?thesis by simp
  next
    case ne: False
    show ?thesis
    proof (cases "fits fsub cfg buffer item")
      case True
      with ne Cons.prems have c: "constituents_loop fsub cfg items groups (buffer @ [item]) = (gs, b)"
        by simp
      from ne True have "within_caps fsub cfg (buffer @ [item])"
        by (rule fits_within_caps)
      with Cons.IH [OF c Cons.prems(2)] show ?thesis by simp
    next
      case False
      with ne Cons.prems have c: "constituents_loop fsub cfg items (groups @ [buffer]) [item] = (gs, b)"
        by simp
      from Cons.prems(2,3)
      have "\<forall>g\<in>set (groups @ [buffer]). 1 < length g \<longrightarrow> within_caps fsub cfg g"
        by auto
      from Cons.IH [OF c this] show ?thesis by simp
    qed
  qed
qed

lemma constituents_caps:
  "g \<in> set (constituents fsub cfg items) \<Longrightarrow> 1 < length g \<Longrightarrow> within_caps fsub cfg g"
proof -
  assume g: "g \<in> set (constituents fsub cfg items)" and l: "1 < length g"
  obtain gs b where c: "constituents_loop fsub cfg items [] [] = (gs, b)"
    by (cases "constituents_loop fsub cfg items [] []")
  from constituents_loop_caps [OF c] have
    "(\<forall>g\<in>set gs. 1 < length g \<longrightarrow> within_caps fsub cfg g) \<and> (1 < length b \<longrightarrow> within_caps fsub cfg b)"
    by simp
  with g l c show ?thesis
    by (auto simp: constituents_def split: if_splits)
qed

lemma split_lines_not_Nil: "split_lines s \<noteq> []"
  by (induction s) (auto split: list.splits)

lemma split_lines_no_break: "CHR 0x0A \<notin> set s \<Longrightarrow> split_lines s = [s]"
  by (induction s) auto

lemma split_lines_append:
  "CHR 0x0A \<notin> set s \<Longrightarrow> split_lines (s @ CHR 0x0A # t) = s # split_lines t"
  by (induction s) auto

lemma split_lines_join:
  "xs \<noteq> [] \<Longrightarrow> \<forall>x\<in>set xs. CHR 0x0A \<notin> set x \<Longrightarrow>
     split_lines (py_join [CHR 0x0A] xs) = xs"
proof (induction xs)
  case Nil
  then show ?case by simp
next
  case (Cons x xs)
  show ?case
  proof (cases xs)
    case Nil
    with Cons.prems show ?thesis by (simp add: split_lines_no_break)
  next
    case (Cons y ys)
    with Cons.IH Cons.prems show ?thesis by (simp add: split_lines_append)
  qed
qed


lemma list_all2_merged:
  "[] \<notin> set gs \<Longrightarrow>
     list_all2 (\<lambda>g c. g \<noteq> [] \<and> merge_segment g = Inr c) gs (map merged gs)"
  by (induction gs) (auto simp: merge_segment_merged)

lemma lines_of_merged:
  "g \<noteq> [] \<Longrightarrow> \<forall>u\<in>set g. CHR 0x0A \<notin> set (seg_text u) \<Longrightarrow>
     split_lines (seg_text (merged g)) = map seg_text g"
  by (simp add: merged_def split_lines_join)


subsection \<open>Coverage\<close>

text \<open>
  Claim C1, as the code has it. For every utterance sequence and every configuration the
  optimizer returns cues, one merged from each list of \<open>constituents\<close>, and the
  constituents of the cues, concatenated in cue order, are exactly the input sequence: no
  utterance is lost, duplicated, reordered or split. Splitting the cue texts at their
  line breaks and concatenating gives the utterance texts in order when no utterance
  text contains a line break; a cue keeps only the joined text, so a line break inside
  an utterance text cannot be told from one between two utterances.
\<close>

theorem optimizer_covers_every_utterance:
  "\<exists>cues. optimize_segmentation fsub cfg items = Inr cues \<and>
     list_all2 (\<lambda>g c. merge_segment g = Inr c) (constituents fsub cfg items) cues \<and>
     concat (constituents fsub cfg items) = items \<and>
     ((\<forall>u\<in>set items. CHR 0x0A \<notin> set (seg_text u)) \<longrightarrow>
        concat (map (\<lambda>c. split_lines (seg_text c)) cues) = map seg_text items)"
proof -
  let ?gs = "constituents fsub cfg items"
  have ne: "[] \<notin> set ?gs" by (rule constituents_nonempty)
  have cat: "concat ?gs = items" by (rule concat_constituents)
  have a: "list_all2 (\<lambda>g c. merge_segment g = Inr c) ?gs (map merged ?gs)"
    by (rule list_all2_mono [OF list_all2_merged [OF ne]]) simp
  have b: "concat (map (\<lambda>c. split_lines (seg_text c)) (map merged ?gs)) = map seg_text items"
    if nl: "\<forall>u\<in>set items. CHR 0x0A \<notin> set (seg_text u)"
  proof -
    have "\<forall>g\<in>set ?gs. split_lines (seg_text (merged g)) = map seg_text g"
    proof
      fix g assume g: "g \<in> set ?gs"
      with ne have "g \<noteq> []" by auto
      moreover have "set (concat ?gs) = (\<Union>h\<in>set ?gs. set h)" by simp
      with g have "set g \<subseteq> set (concat ?gs)" by blast
      then have "set g \<subseteq> set items" by (simp only: cat)
      with nl have "\<forall>u\<in>set g. CHR 0x0A \<notin> set (seg_text u)" by auto
      ultimately show "split_lines (seg_text (merged g)) = map seg_text g"
        by (rule lines_of_merged)
    qed
    then have "concat (map (\<lambda>c. split_lines (seg_text c)) (map merged ?gs)) = concat (map (map seg_text) ?gs)"
      by (simp add: map_concat cong: map_cong)
    also have "\<dots> = map seg_text (concat ?gs)" by (simp add: map_concat)
    finally show ?thesis by (simp add: cat)
  qed
  show ?thesis
    using optimize_segmentation_constituents [of fsub cfg items] a cat b by blast
qed

theorem optimizer_covers_every_utterance_witness:
  "CHR 0x0A \<notin> set (concat (map seg_text scenario)) \<and>
   (\<exists>cues. optimize_segmentation (-) default_config scenario = Inr cues \<and>
      concat (constituents (-) default_config scenario) = scenario \<and>
      concat (map (\<lambda>c. split_lines (seg_text c)) cues) = [''hello'', ''world'', ''third''])"
proof -
  have nl: "\<forall>u\<in>set scenario. CHR 0x0A \<notin> set (seg_text u)"
    by (simp add: scenario_def utt_def)
  have "map seg_text scenario = [''hello'', ''world'', ''third'']"
    by (simp add: scenario_def utt_def)
  with nl optimizer_covers_every_utterance [of "(-)" default_config scenario]
  show ?thesis by auto
qed


text \<open>
  One utterance whose text \<open>A\<newline>b.\<close> contains a line break: its cue has the same text,
  which splits into two lines, not into the one utterance text.
\<close>

theorem cue_text_split_differs_from_utterance_texts:
  "optimize_segmentation (-) default_config [two_line_utterance] = Inr [two_line_utterance] \<and>
   constituents (-) default_config [two_line_utterance] = [[two_line_utterance]] \<and>
   concat (map (split_lines \<circ> seg_text) [two_line_utterance]) = [''A'', ''b.''] \<and>
   map seg_text [two_line_utterance] = [''A\<newline>b.''] \<and>
   concat (map (split_lines \<circ> seg_text) [two_line_utterance]) \<noteq>
     map seg_text [two_line_utterance]"
  by (simp add: optimize_segmentation_def optimize_step_def merge_segment_def
      constituents_def two_line_utterance_def utt_def np_mean_def)

subsection \<open>Caps\<close>

text \<open>
  Claim C2. Every cue merged from more than one utterance spans at most
  \<open>max_duration\<close> (in the subtraction the code uses), the lengths of its constituent
  texts sum to at most \<open>max_chars * max_lines\<close>, and it has at most \<open>max_lines\<close>
  constituents.
\<close>

theorem merged_cues_respect_caps:
  "\<exists>cues. optimize_segmentation fsub cfg items = Inr cues \<and>
     list_all2 (\<lambda>g c. merge_segment g = Inr c \<and>
        (1 < length g \<longrightarrow>
           fsub (seg_end c) (seg_start c) \<le> max_duration cfg \<and>
           (\<Sum>u\<leftarrow>g. int (length (seg_text u))) \<le> max_chars cfg * max_lines cfg \<and>
           int (length g) \<le> max_lines cfg))
       (constituents fsub cfg items) cues"
proof -
  let ?gs = "constituents fsub cfg items"
  have "list_all2 (\<lambda>g c. merge_segment g = Inr c \<and>
        (1 < length g \<longrightarrow>
           fsub (seg_end c) (seg_start c) \<le> max_duration cfg \<and>
           (\<Sum>u\<leftarrow>g. int (length (seg_text u))) \<le> max_chars cfg * max_lines cfg \<and>
           int (length g) \<le> max_lines cfg)) ?gs (map merged ?gs)"
    unfolding list_all2_conv_all_nth
  proof (intro conjI allI impI)
    show "length ?gs = length (map merged ?gs)" by simp
  next
    fix i assume i: "i < length ?gs"
    then have m: "?gs ! i \<in> set ?gs" by simp
    with constituents_nonempty [of fsub cfg items] have "?gs ! i \<noteq> []" by auto
    with i show "merge_segment (?gs ! i) = Inr (map merged ?gs ! i)"
      by (simp add: merge_segment_merged)
    assume "1 < length (?gs ! i)"
    with m have w: "within_caps fsub cfg (?gs ! i)" by (rule constituents_caps)
    from w i show "fsub (seg_end (map merged ?gs ! i)) (seg_start (map merged ?gs ! i)) \<le> max_duration cfg"
      by (simp add: within_caps_def merged_def)
    from w show "(\<Sum>u\<leftarrow>?gs ! i. int (length (seg_text u))) \<le> max_chars cfg * max_lines cfg"
      by (simp add: within_caps_def total_length_def)
    from w show "int (length (?gs ! i)) \<le> max_lines cfg"
      by (simp add: within_caps_def)
  qed
  then show ?thesis
    using optimize_segmentation_constituents [of fsub cfg items] by blast
qed

theorem merged_cues_respect_caps_witness:
  "1 < length (constituents (-) default_config scenario ! 0) \<and>
   (\<exists>cues. optimize_segmentation (-) default_config scenario = Inr cues \<and>
      seg_end (cues ! 0) - seg_start (cues ! 0) \<le> max_duration default_config \<and>
      int (length (constituents (-) default_config scenario ! 0)) \<le> max_lines default_config)"
proof -
  have gs: "constituents (-) default_config scenario =
      [[utt 0 1.5 ''hello'', utt 1.6 3 ''world''], [utt 3.1 9.5 ''third'']]"
    by (simp add: constituents_def scenario_def default_config_def utt_def fits_def
        current_duration_def current_length_def)
  from merged_cues_respect_caps [of "(-)" default_config scenario] gs
  show ?thesis
    by (auto simp: list_all2_Cons1)
qed

subsection \<open>The acceptance test\<close>

text \<open>
  Claim C4. On a non-empty buffer, one loop iteration appends the incoming utterance
  \<open>u\<close> to the buffer exactly when the prospective duration is at most \<open>max_duration\<close>,
  the prospective total length is at most \<open>max_chars * max_lines\<close> and the buffer holds
  fewer than \<open>max_lines\<close> utterances; both bounds are inclusive, the occupancy test is
  strict. Otherwise the buffer is flushed into a cue and \<open>u\<close> starts the next buffer.
\<close>

theorem append_iff_all_three_caps_hold:
  assumes "buffer \<noteq> []"
  shows "((optimize_step fsub cfg (optimized, buffer) u = Inr (optimized, buffer @ [u])) \<longleftrightarrow>
            fsub (seg_end u) (seg_start (hd buffer)) \<le> max_duration cfg \<and>
            (\<Sum>i\<leftarrow>buffer. int (length (seg_text i))) + int (length (seg_text u))
              \<le> max_chars cfg * max_lines cfg \<and>
            int (length buffer) < max_lines cfg) \<and>
         (optimize_step fsub cfg (optimized, buffer) u \<noteq> Inr (optimized, buffer @ [u]) \<longrightarrow>
            (\<exists>c. merge_segment buffer = Inr c \<and>
                 optimize_step fsub cfg (optimized, buffer) u = Inr (optimized @ [c], [u])))"
  using assms
  by (auto simp: optimize_step_def fits_def current_duration_def current_length_def
      merge_segment_merged)

theorem append_iff_all_three_caps_hold_witness:
  "[utt 0 1.5 ''hello''] \<noteq> [] \<and>
   optimize_step (-) default_config ([], [utt 0 1.5 ''hello'']) (utt 1.6 8 ''world'') =
     Inr ([], [utt 0 1.5 ''hello'', utt 1.6 8 ''world'']) \<and>
   seg_end (utt 1.6 8 ''world'') - seg_start (utt 0 1.5 ''hello'') = max_duration default_config"
proof -
  have "seg_end (utt 1.6 8 ''world'') - seg_start (hd [utt 0 1.5 ''hello''])
          \<le> max_duration default_config \<and>
        (\<Sum>i\<leftarrow>[utt 0 1.5 ''hello'']. int (length (seg_text i)))
          + int (length (seg_text (utt 1.6 8 ''world'')))
          \<le> max_chars default_config * max_lines default_config \<and>
        int (length [utt 0 1.5 ''hello'']) < max_lines default_config"
    by (simp add: utt_def default_config_def)
  with append_iff_all_three_caps_hold
         [of "[utt 0 1.5 ''hello'']" "(-)" default_config "[]" "utt 1.6 8 ''world''"]
  show ?thesis
    by (simp add: utt_def default_config_def)
qed

subsection \<open>Safety of the merge\<close>

text \<open>
  Claim C10. The optimizer never fails: for every input it returns cues, and each cue
  is the merge of a non-empty buffer, so the reads of \<open>items[0]\<close> and \<open>items[-1]\<close> in
  \<open>_merge_segment\<close>, which raise \<open>IndexError\<close> on the empty list only, are in bounds.
\<close>

theorem optimizer_merges_nonempty_buffers:
  "(\<exists>cues. optimize_segmentation fsub cfg items = Inr cues \<and>
      list_all2 (\<lambda>g c. g \<noteq> [] \<and> merge_segment g = Inr c) (constituents fsub cfg items) cues) \<and>
   (merge_segment g = Inl IndexError \<longleftrightarrow> g = [])"
proof -
  let ?gs = "constituents fsub cfg items"
  have "list_all2 (\<lambda>g c. g \<noteq> [] \<and> merge_segment g = Inr c) ?gs (map merged ?gs)"
    by (rule list_all2_merged [OF constituents_nonempty])
  moreover have "merge_segment g = Inl IndexError \<longleftrightarrow> g = []"
    by (simp add: merge_segment_def)
  ultimately show ?thesis
    using optimize_segmentation_constituents [of fsub cfg items] by blast
qed

subsection \<open>Empty input\<close>

text \<open>
  Claim C7. On the empty utterance sequence the optimizer returns the empty cue
  sequence, without error, and rendering the empty cue sequence writes the empty
  document.
\<close>

theorem empty_input_gives_empty_document:
  "optimize_segmentation fsub cfg [] = Inr [] \<and>
   generate_srt cfg [] output_path fs = fs(output_path \<mapsto> [])"
  by (simp add: optimize_segmentation_def generate_srt_def)

subsection \<open>Lines of a cue\<close>

text \<open>
  Claim C3 on the code. The command line documents \<open>--max-chars\<close> as the maximal
  number of characters per line (line 219), and the claim bounds every line of a cue
  merged from several utterances by \<open>max_chars\<close>. The optimizer compares only the sum
  of the text lengths with \<open>max_chars * max_lines\<close> (lines 152-155) and never the
  length of a line. Two utterances of 13 and 3 characters under \<open>max_chars = 10\<close>,
  \<open>max_lines = 2\<close>: the total of 16 is within the budget of 20, so they are merged
  into one cue of two constituents, whose first line is 13 characters long.
\<close>

theorem merged_line_longer_than_max_chars:
  "optimize_segmentation (-) narrow_config long_line_items =
     Inr [\<lparr> seg_start = 0, seg_end = 2, seg_text = ''Good morning.\<newline>Hi.'',
            seg_confidence = 1, seg_speaker = ''SPK1'' \<rparr>] \<and>
   constituents (-) narrow_config long_line_items = [long_line_items] \<and>
   split_lines ''Good morning.\<newline>Hi.'' = [''Good morning.'', ''Hi.''] \<and>
   \<not> int (length ''Good morning.'') \<le> max_chars narrow_config"
  by (simp add: optimize_segmentation_def optimize_step_def merge_segment_def fits_def
      current_duration_def current_length_def constituents_def narrow_config_def
      long_line_items_def utt_def np_mean_def)

section \<open>Properties of the renderer\<close>

lemma srt_loop_blocks:
  "srt_loop cfg idx segments srt_content =
     srt_content @
     map (\<lambda>(i, seg).
            str_nat i @ ''\<newline>'' @ format_time (seg_start seg) @ '' --> '' @
            format_time (seg_end seg) @ ''\<newline>'' @
            (if speaker_diarization cfg then ''['' @ seg_speaker seg @ ''] '' else '''') @
            seg_text seg @ ''\<newline>'')
         (zip [idx..<idx + length segments] segments)"
proof (induction segments arbitrary: idx srt_content)
  case Nil
  then show ?case by simp
next
  case (Cons seg segments)
  have "idx < idx + length (seg # segments)" by simp
  then have "[idx..<idx + length (seg # segments)] = idx # [Suc idx..<idx + length (seg # segments)]"
    by (rule upt_conv_Cons)
  moreover have "idx + length (seg # segments) = Suc idx + length segments" by simp
  ultimately have "[idx..<idx + length (seg # segments)] = idx # [Suc idx..<Suc idx + length segments]"
    by (simp only:)
  then show ?case
    by (simp only: srt_loop.simps Let_def Cons.IH zip_Cons_Cons list.map append_Cons append_Nil
        append_assoc prod.case)
qed

text \<open>
  Claim C8. The document written to \<open>output_path\<close> is the blocks of the cues, in
  order and numbered from 1, joined by a line break; a block is the index, a line break,
  the two formatted times around \<open>-->\<close>, a line break, the text, preceded by the
  speaker in brackets exactly when \<open>speaker_diarization\<close> is set, and a line break.
  Each block ends in a line break, so joined blocks are one empty line apart. Nothing is
  reordered, dropped or changed.
\<close>

theorem rendered_document_shape:
  "generate_srt cfg segments output_path fs =
     fs(output_path \<mapsto>
        py_join ''\<newline>''
          (map (\<lambda>(idx, seg).
                  str_nat idx @ ''\<newline>'' @
                  format_time (seg_start seg) @ '' --> '' @ format_time (seg_end seg) @ ''\<newline>'' @
                  (if speaker_diarization cfg then ''['' @ seg_speaker seg @ ''] '' else '''') @
                  seg_text seg @ ''\<newline>'')
               (zip [1..<Suc (length segments)] segments)))"
  by (simp add: generate_srt_def srt_loop_blocks)

section \<open>Properties of the normalizer\<close>

lemma process_loop_acc:
  "process_loop p results processed = processed @ process_loop p results []"
proof (induction results arbitrary: processed)
  case Nil
  then show ?case by simp
next
  case (Cons res results)
  show ?case
  proof (cases res)
    case None
    then show ?thesis using Cons.IH [of processed] by simp
  next
    case (Some words)
    show ?thesis
    proof (cases "words = []")
      case True
      with Some show ?thesis using Cons.IH [of processed] by simp
    next
      case False
      with Some show ?thesis
        by (simp add: Let_def Cons.IH [of "processed @ _"] Cons.IH [of "[_]"])
    qed
  qed
qed

lemma mark_not_space: "c \<in> terminal_marks \<Longrightarrow> \<not> is_space c"
  by (auto simp: terminal_marks_def is_space_def)

lemma mark_case: "c \<in> terminal_marks \<Longrightarrow> to_upper c = c \<and> to_lower c = c"
  by (auto simp: terminal_marks_def to_upper_def to_lower_def)

lemma strip_keeps_mark:
  assumes "s \<noteq> []" "last s \<in> terminal_marks"
  shows "py_strip s \<noteq> [] \<and> last (py_strip s) = last s"
proof -
  let ?t = "dropWhile is_space s"
  have ns: "\<not> is_space (last s)" using assms(2) by (rule mark_not_space)
  have "last s \<in> set s" using assms(1) by simp
  with ns have t: "?t \<noteq> []" by (auto simp: dropWhile_eq_Nil_conv)
  have lt: "last ?t = last s"
    using t by (metis takeWhile_dropWhile_id last_appendR)
  have "hd (rev ?t) = last ?t" using t by (simp add: hd_rev)
  with lt ns have "\<not> is_space (hd (rev ?t))" by simp
  moreover have "rev ?t \<noteq> []" using t by simp
  ultimately have "dropWhile is_space (rev ?t) = rev ?t"
    by (cases "rev ?t") auto
  then have "py_strip s = ?t" by (simp add: py_strip_def)
  with t lt show ?thesis by simp
qed

lemma capitalize_keeps_mark:
  assumes "s \<noteq> []" "last s \<in> terminal_marks"
  shows "py_capitalize s \<noteq> [] \<and> last (py_capitalize s) = last s"
proof (cases s)
  case Nil
  with assms show ?thesis by simp
next
  case (Cons c cs)
  show ?thesis
  proof (cases "cs = []")
    case True
    with Cons assms show ?thesis by (simp add: py_capitalize_def mark_case)
  next
    case False
    with Cons assms show ?thesis by (simp add: py_capitalize_def last_map mark_case)
  qed
qed

text \<open>
  Claim C9, as the code has it. A result group without words, or with an empty word
  list, adds nothing; a group with words adds exactly one utterance, in input order, whose
  start and end are the first word's start and the last word's end rounded to two
  decimals and whose confidence is the mean of the words' confidences. Its text is made
  from the restored text \<open>t\<close> of the words joined by spaces: when \<open>t\<close> is not empty
  and does not end in a full stop, question mark or exclamation mark, a full stop is
  appended, and otherwise nothing is; the result is stripped and capitalized. The text
  therefore ends in one of the three marks when \<open>t\<close> is not empty; an empty \<open>t\<close>
  is left empty (line 130 tests \<open>text and ...\<close>).
\<close>

theorem normalizer_one_utterance_per_spoken_group:
  "process_results p [] = [] \<and>
   process_results p (None # results) = process_results p results \<and>
   process_results p (Some [] # results) = process_results p results \<and>
   (words \<noteq> [] \<longrightarrow>
      (\<exists>u t. process_results p (Some words # results) = u # process_results p results \<and>
         t = restore_punctuation p (py_join '' '' (map tok_word words)) \<and>
         seg_start u = py_round (tok_start (hd words)) 2 \<and>
         seg_end u = py_round (tok_end (last words)) 2 \<and>
         seg_confidence u = sum_list (map tok_conf words) / real (length words) \<and>
         seg_speaker u = ''SPK1'' \<and>
         (t = [] \<longrightarrow> seg_text u = []) \<and>
         (t \<noteq> [] \<and> last t \<in> {CHR ''.'', CHR ''?'', CHR ''!''} \<longrightarrow>
            seg_text u = py_capitalize (py_strip t)) \<and>
         (t \<noteq> [] \<and> last t \<notin> {CHR ''.'', CHR ''?'', CHR ''!''} \<longrightarrow>
            seg_text u = py_capitalize (py_strip (t @ ''.''))) \<and>
         (t \<noteq> [] \<longrightarrow>
            seg_text u \<noteq> [] \<and> last (seg_text u) \<in> {CHR ''.'', CHR ''?'', CHR ''!''})))"
proof -
  have e: "process_results p [] = []" by (simp add: process_results_def)
  have n: "process_results p (None # results) = process_results p results"
    by (simp add: process_results_def)
  have s: "process_results p (Some [] # results) = process_results p results"
    by (simp add: process_results_def)
  have w: "\<exists>u t. process_results p (Some words # results) = u # process_results p results \<and>
         t = restore_punctuation p (py_join '' '' (map tok_word words)) \<and>
         seg_start u = py_round (tok_start (hd words)) 2 \<and>
         seg_end u = py_round (tok_end (last words)) 2 \<and>
         seg_confidence u = sum_list (map tok_conf words) / real (length words) \<and>
         seg_speaker u = ''SPK1'' \<and>
         (t = [] \<longrightarrow> seg_text u = []) \<and>
         (t \<noteq> [] \<and> last t \<in> {CHR ''.'', CHR ''?'', CHR ''!''} \<longrightarrow>
            seg_text u = py_capitalize (py_strip t)) \<and>
         (t \<noteq> [] \<and> last t \<notin> {CHR ''.'', CHR ''?'', CHR ''!''} \<longrightarrow>
            seg_text u = py_capitalize (py_strip (t @ ''.''))) \<and>
         (t \<noteq> [] \<longrightarrow>
            seg_text u \<noteq> [] \<and> last (seg_text u) \<in> {CHR ''.'', CHR ''?'', CHR ''!''})"
    if ne: "words \<noteq> []"
  proof -
    define t0 where "t0 = restore_punctuation p (py_join '' '' (map tok_word words))"
    define t1 where "t1 = (if t0 \<noteq> [] \<and> last t0 \<notin> terminal_marks then t0 @ ''.'' else t0)"
    define cap where "cap = py_capitalize (py_strip t1)"
    define u where "u = \<lparr> seg_start = py_round (tok_start (hd words)) 2,
                seg_end = py_round (tok_end (last words)) 2,
                seg_text = cap,
                seg_confidence = np_mean (map tok_conf words),
                seg_speaker = ''SPK1'' \<rparr>"
    have "process_loop p (Some words # results) [] = process_loop p results [u]"
      using ne by (simp add: Let_def u_def cap_def t1_def t0_def)
    also have "\<dots> = [u] @ process_loop p results []"
      by (rule process_loop_acc)
    finally have eq: "process_results p (Some words # results) = u # process_results p results"
      by (simp add: process_results_def)
    have m: "cap \<noteq> [] \<and> last cap \<in> {CHR ''.'', CHR ''?'', CHR ''!''}" if t0: "t0 \<noteq> []"
    proof -
      from t0 have "t1 \<noteq> [] \<and> last t1 \<in> terminal_marks"
        by (auto simp: t1_def terminal_marks_def)
      then have "py_strip t1 \<noteq> [] \<and> last (py_strip t1) \<in> terminal_marks"
        using strip_keeps_mark [of t1] by simp
      then have "cap \<noteq> [] \<and> last cap \<in> terminal_marks"
        using capitalize_keeps_mark [of "py_strip t1"] by (simp add: cap_def)
      then show ?thesis by (simp add: terminal_marks_def)
    qed
    have z: "cap = []" if "t0 = []"
      using that by (simp add: cap_def t1_def py_strip_def py_capitalize_def)
    have k: "cap = py_capitalize (py_strip t0)"
      if "t0 \<noteq> [] \<and> last t0 \<in> {CHR ''.'', CHR ''?'', CHR ''!''}"
      using that by (simp add: cap_def t1_def terminal_marks_def)
    have a: "cap = py_capitalize (py_strip (t0 @ ''.''))"
      if "t0 \<noteq> [] \<and> last t0 \<notin> {CHR ''.'', CHR ''?'', CHR ''!''}"
      using that by (simp add: cap_def t1_def terminal_marks_def)
    have f: "seg_start u = py_round (tok_start (hd words)) 2 \<and>
             seg_end u = py_round (tok_end (last words)) 2 \<and>
             seg_confidence u = sum_list (map tok_conf words) / real (length words) \<and>
             seg_speaker u = ''SPK1'' \<and>
             seg_text u = cap"
      by (simp add: u_def np_mean_def)
    from eq f m z k a show ?thesis
      unfolding t0_def [symmetric] by (intro exI [of _ u] exI [of _ t0]) simp
  qed
  from e n s w show ?thesis by blast
qed

theorem normalizer_one_utterance_per_spoken_group_witness:
  "[\<lparr> tok_word = ''hello'', tok_start = 0.123, tok_end = 0.5, tok_conf = 0.9 \<rparr>,
    \<lparr> tok_word = ''world'', tok_start = 0.6, tok_end = 1.004, tok_conf = 0.8 \<rparr>] \<noteq> [] \<and>
   process_results None
     [Some [\<lparr> tok_word = ''hello'', tok_start = 0.123, tok_end = 0.5, tok_conf = 0.9 \<rparr>,
            \<lparr> tok_word = ''world'', tok_start = 0.6, tok_end = 1.004, tok_conf = 0.8 \<rparr>]] =
     [\<lparr> seg_start = 0.12, seg_end = 1, seg_text = ''Hello world.'',
        seg_confidence = 0.85, seg_speaker = ''SPK1'' \<rparr>]"
proof -
  let ?ws = "[\<lparr> tok_word = ''hello'', tok_start = 0.123, tok_end = 0.5, tok_conf = 0.9 \<rparr>,
    \<lparr> tok_word = ''world'', tok_start = 0.6, tok_end = 1.004, tok_conf = 0.8 \<rparr>]"
  have ne: "?ws \<noteq> []" by simp
  from normalizer_one_utterance_per_spoken_group [of None "[]" ?ws] ne
  obtain u t where
    r: "process_results None [Some ?ws] = u # process_results None []" and
    t: "t = restore_punctuation None (py_join '' '' (map tok_word ?ws))" and
    b: "seg_start u = py_round (tok_start (hd ?ws)) 2" and
    c: "seg_end u = py_round (tok_end (last ?ws)) 2" and
    d: "seg_confidence u = sum_list (map tok_conf ?ws) / real (length ?ws)" and
    k: "seg_speaker u = ''SPK1''" and
    a: "t \<noteq> [] \<and> last t \<notin> {CHR ''.'', CHR ''?'', CHR ''!''} \<longrightarrow>
          seg_text u = py_capitalize (py_strip (t @ ''.''))"
    by blast
  have t': "t = ''hello world''" by (simp add: t restore_punctuation_def)
  have up: "char_of (72::nat) = CHR ''H''" by (simp add: char_of_def bit_iff_odd)
  have x: "seg_text u = ''Hello world.''"
    using a unfolding t'
    by (simp add: py_capitalize_def py_strip_def is_space_def to_upper_def to_lower_def up)
  have b': "seg_start u = 0.12" by (simp add: b py_round_def round_half_even_def)
  have c': "seg_end u = 1" by (simp add: c py_round_def round_half_even_def)
  have d': "seg_confidence u = 0.85" by (simp add: d)
  have "u = \<lparr> seg_start = 0.12, seg_end = 1, seg_text = ''Hello world.'',
        seg_confidence = 0.85, seg_speaker = ''SPK1'' \<rparr>"
    using x b' c' d' k by (cases u) simp
  moreover have "process_results None [] = []" by (simp add: process_results_def)
  ultimately show ?thesis using r by simp
qed

text \<open>
  A group whose only word is the empty string: the restored text is empty, no full stop
  is appended, and the utterance's text is empty.
\<close>

theorem empty_text_gets_no_period:
  "process_results None [Some [silent_word]] =
     [\<lparr> seg_start = 0, seg_end = 1, seg_text = [], seg_confidence = 1, seg_speaker = ''SPK1'' \<rparr>] \<and>
   seg_text (hd (process_results None [Some [silent_word]])) = []"
  by (simp add: process_results_def silent_word_def restore_punctuation_def py_strip_def
      py_capitalize_def py_round_def round_half_even_def np_mean_def)

section \<open>Properties of the timecode formatter\<close>

subsection \<open>Decimal digits\<close>

lemma digit_char_not_dot: "d < 10 \<Longrightarrow> digit_char d \<noteq> CHR ''.''"
proof -
  assume "d < 10"
  then have "d \<in> {0,1,2,3,4,5,6,7,8,9}" by auto
  then show ?thesis by (auto simp: digit_char_def)
qed

lemma str_nat_no_dot: "CHR ''.'' \<notin> set (str_nat n)"
proof (induction n rule: str_nat.induct)
  case (1 n)
  show ?case
  proof (cases "n < 10")
    case True
    then show ?thesis
      using digit_char_not_dot [of n] by (subst str_nat.simps) auto
  next
    case False
    have "n mod 10 < 10" by simp
    then have "digit_char (n mod 10) \<noteq> CHR ''.''" by (rule digit_char_not_dot)
    with False 1 show ?thesis
      by (subst str_nat.simps) auto
  qed
qed

lemma py_replace_no_dot: "CHR ''.'' \<notin> set s \<Longrightarrow> py_replace (CHR ''.'') c s = s"
  by (induction s) (auto simp: py_replace_def)

lemma py_replace_append: "py_replace a b (s @ t) = py_replace a b s @ py_replace a b t"
  by (simp add: py_replace_def)

lemma str_nat_lt10: "n < 10 \<Longrightarrow> str_nat n = [digit_char n]"
  by (subst str_nat.simps) simp

lemma str_nat_lt100:
  "10 \<le> n \<Longrightarrow> n < 100 \<Longrightarrow> str_nat n = [digit_char (n div 10), digit_char (n mod 10)]"
  by (subst str_nat.simps) (simp add: str_nat_lt10)

lemma str_nat_lt1000:
  "100 \<le> n \<Longrightarrow> n < 1000 \<Longrightarrow>
     str_nat n = [digit_char (n div 100), digit_char (n div 10 mod 10), digit_char (n mod 10)]"
  by (subst str_nat.simps) (simp add: str_nat_lt100 div_mult2_eq [symmetric])

lemma length_str_nat: "10 \<le> n \<Longrightarrow> 2 \<le> length (str_nat n)"
proof -
  assume n: "10 \<le> n"
  have "str_nat n = str_nat (n div 10) @ [digit_char (n mod 10)]"
    using n by (subst str_nat.simps) simp
  moreover have "str_nat (n div 10) \<noteq> []"
    by (subst str_nat.simps) simp
  ultimately show ?thesis
    by (cases "str_nat (n div 10)") auto
qed

lemma digit_char_0: "digit_char 0 = CHR ''0''"
  by (simp add: digit_char_def)

lemma zfill2_str_nat:
  "zfill 2 (str_nat n) = (if n < 10 then CHR ''0'' # str_nat n else str_nat n)"
proof (cases "n < 10")
  case True
  then show ?thesis by (simp add: zfill_def str_nat_lt10)
next
  case False
  then have "2 \<le> length (str_nat n)" by (simp add: length_str_nat)
  with False show ?thesis by (simp add: zfill_def)
qed

lemma two_digits:
  "n < 100 \<Longrightarrow> zfill 2 (str_nat n) = [digit_char (n div 10), digit_char (n mod 10)]"
  by (cases "n < 10") (simp_all add: zfill_def str_nat_lt10 str_nat_lt100 digit_char_0)

lemma three_digits:
  "n < 1000 \<Longrightarrow>
     zfill 3 (str_nat n) = [digit_char (n div 100), digit_char (n div 10 mod 10), digit_char (n mod 10)]"
proof -
  assume n: "n < 1000"
  consider "n < 10" | "10 \<le> n" "n < 100" | "100 \<le> n"
    by linarith
  then show ?thesis
  proof cases
    case 1
    then show ?thesis by (simp add: zfill_def str_nat_lt10 digit_char_0 numeral_3_eq_3)
  next
    case 2
    then show ?thesis by (simp add: zfill_def str_nat_lt100 digit_char_0)
  next
    case 3
    with n show ?thesis by (simp add: zfill_def str_nat_lt1000)
  qed
qed

subsection \<open>Rounding to the nearest integer\<close>

lemma round_half_even_near: "\<bar>of_int (round_half_even x) - x\<bar> \<le> 1 / 2"
proof -
  have "of_int \<lfloor>x\<rfloor> \<le> x" and "x < of_int \<lfloor>x\<rfloor> + 1" by linarith+
  then show ?thesis
    by (auto simp: round_half_even_def Let_def)
qed

lemma round_half_even_ge: "0 \<le> x \<Longrightarrow> 0 \<le> round_half_even x"
proof -
  assume "0 \<le> x"
  then have "0 \<le> \<lfloor>x\<rfloor>" by simp
  then show ?thesis by (auto simp: round_half_even_def Let_def)
qed

lemma round_half_even_le: "x \<le> of_int n \<Longrightarrow> round_half_even x \<le> n"
proof -
  assume x: "x \<le> of_int n"
  show ?thesis
  proof (cases "x = of_int n")
    case True
    then show ?thesis by (simp add: round_half_even_def)
  next
    case False
    with x have "x < of_int n" by simp
    then have "\<lfloor>x\<rfloor> < n" by (simp add: floor_less_iff)
    then show ?thesis by (auto simp: round_half_even_def Let_def)
  qed
qed

lemma round_half_even_less:
  assumes "x < of_int n - 1 / 2"
  shows "round_half_even x < n"
proof -
  from round_half_even_near [of x] have "of_int (round_half_even x) \<le> x + 1 / 2"
    by linarith
  with assms have "(of_int (round_half_even x) :: real) < of_int n" by linarith
  then show ?thesis by simp
qed

subsection \<open>Float arithmetic\<close>

text \<open>
  Rounding to a float keeps the sign, and leaves every integer of magnitude up to
  \<open>2 ^ 53\<close> as it is.
\<close>

lemma round_half_even_of_int: "round_half_even (of_int z) = z"
  by (simp add: round_half_even_def)

lemma float_round_nonneg: "0 \<le> x \<Longrightarrow> 0 \<le> float_round x"
proof -
  assume x: "0 \<le> x"
  have "0 \<le> round_half_even (x / 2 powr r)" for r
    using x by (intro round_half_even_ge) simp
  then show ?thesis
    by (simp add: float_round_def Let_def)
qed

lemma float_round_exact:
  assumes "x / 2 powr (of_int (max \<lfloor>log 2 \<bar>x\<bar>\<rfloor> (- 1022)) - 52) = of_int z"
  shows "float_round x = x"
proof (cases "x = 0")
  case True
  then show ?thesis by (simp add: float_round_def)
next
  case False
  let ?u = "2 powr (of_int (max \<lfloor>log 2 \<bar>x\<bar>\<rfloor> (- 1022)) - 52)"
  have u: "?u \<noteq> 0" by simp
  have "float_round x = of_int (round_half_even (x / ?u)) * ?u"
    using False by (simp add: float_round_def Let_def)
  also have "\<dots> = of_int z * ?u"
    unfolding assms round_half_even_of_int ..
  also have "\<dots> = x / ?u * ?u" unfolding assms ..
  also have "\<dots> = x" using u by simp
  finally show ?thesis .
qed

lemma float_round_of_int:
  assumes "\<bar>n\<bar> \<le> 2 ^ 53"
  shows "float_round (of_int n) = of_int n"
proof (cases "n = 0")
  case True
  then show ?thesis by (simp add: float_round_def)
next
  case False
  define a :: real where "a = \<bar>of_int n\<bar>"
  define e where "e = \<lfloor>log 2 a\<rfloor>"
  have a1: "1 \<le> a" using False by (simp add: a_def)
  have a2: "a \<le> 2 ^ 53"
  proof -
    have "a = of_int \<bar>n\<bar>" by (simp add: a_def)
    also have "\<dots> \<le> of_int (2 ^ 53)" using assms by (intro of_int_le_iff [THEN iffD2])
    finally show ?thesis by simp
  qed
  have e0: "0 \<le> e" using a1 by (simp add: e_def)
  have b: "2 powr of_int e \<le> a" and "a < 2 powr (of_int e + 1)"
    using floor_log_eq_powr_iff [of a 2 e] a1 by (simp_all add: e_def)
  have pe: "2 powr of_int e = (2::real) ^ nat e"
    using e0 by (simp add: powr_real_of_int)
  have "(2::real) ^ nat e \<le> 2 ^ 53" using b a2 pe by simp
  then have e53: "nat e \<le> 53"
    by (rule power_le_imp_le_exp [rotated]) simp
  have m: "max e (- 1022) = e" using e0 by simp
  show ?thesis
  proof (cases "nat e \<le> 52")
    case True
    define j where "j = 52 - nat e"
    have "real_of_int e - 52 = - real j" using True e0 by (simp add: j_def)
    then have "2 powr (real_of_int e - 52) = 1 / 2 ^ j"
      by (simp add: powr_minus powr_realpow divide_simps)
    then have "real_of_int n / 2 powr (real_of_int e - 52) = of_int (n * 2 ^ j)"
      by simp
    then show ?thesis
      using float_round_exact [of "of_int n" "n * 2 ^ j"] m
      by (simp add: e_def a_def)
  next
    case False
    with e53 have e: "nat e = 53" by simp
    with b a2 pe have "a = 2 ^ 53" by simp
    then have n: "\<bar>n\<bar> = 2 ^ 53"
      unfolding a_def by (metis of_int_abs of_int_eq_iff of_int_numeral of_int_power)
    have "real_of_int e - 52 = 1" using e e0 by simp
    then have u: "2 powr (real_of_int e - 52) = 2" by simp
    have "n = 2 ^ 53 \<or> n = - (2 ^ 53)" using n by linarith
    then have "real_of_int n / 2 = of_int (n div 2)"
      by auto
    then show ?thesis
      using float_round_exact [of "of_int n" "n div 2"] m u
      by (simp add: e_def a_def)
  qed
qed

lemma float_round_binade:
  assumes "2 ^ n \<le> \<bar>x\<bar>" and "\<bar>x\<bar> < 2 ^ Suc n" and "52 \<le> n"
  shows "float_round x = of_int (round_half_even (x / 2 ^ (n - 52))) * 2 ^ (n - 52)"
proof -
  have "(0::real) < 2 ^ n" by simp
  with assms(1) have x: "0 < \<bar>x\<bar>" by linarith
  have pw: "(2::real) powr real k = 2 ^ k" for k by (simp add: powr_realpow)
  have "2 powr real_of_int (int n) \<le> \<bar>x\<bar>"
    using assms(1) by (simp add: pw)
  moreover have "\<bar>x\<bar> < 2 powr real (Suc n)"
    using assms(2) by (simp only: pw)
  then have "\<bar>x\<bar> < 2 powr real_of_int (int n + 1)"
    by (simp add: add.commute)
  ultimately have e: "\<lfloor>log 2 \<bar>x\<bar>\<rfloor> = int n"
    using floor_log_eq_powr_iff [of "\<bar>x\<bar>" 2 "int n"] x by simp
  have "real_of_int (int n) - 52 = real (n - 52)" using assms(3) by simp
  then have u: "2 powr (real_of_int (int n) - 52) = 2 ^ (n - 52)"
    by (simp only: pw)
  have m: "max (int n) (- 1022) = int n" by simp
  from x have "x \<noteq> 0" by auto
  then show ?thesis
    by (simp only: float_round_def e m u Let_def if_False)
qed

lemma float_round_numeral:
  "(numeral n :: real) \<le> 2 ^ 53 \<Longrightarrow> float_round (numeral n) = numeral n"
proof -
  assume "(numeral n :: real) \<le> 2 ^ 53"
  then have "real_of_int (numeral n) \<le> real_of_int (2 ^ 53)" by simp
  then have "(numeral n :: int) \<le> 2 ^ 53" by (simp only: of_int_le_iff)
  then have "float_round (of_int (numeral n)) = of_int (numeral n)"
    by (intro float_round_of_int) simp
  then show ?thesis by simp
qed

lemma float_round_small: "float_round 0 = 0" "float_round 1 = 1"
  using float_round_of_int [of 0] float_round_of_int [of 1] by simp_all

text \<open>
  \<open>divmod\<close> of a non-negative float by a positive one: the remainder is exact, the
  quotient is not negative, and it is the exact floor when the dividend is at most
  \<open>2 ^ 53\<close> and the divisor a whole number.
\<close>

lemma c_fmod_nonneg:
  assumes "0 \<le> x" and "0 < y"
  shows "c_fmod x y = x - y * of_int \<lfloor>x / y\<rfloor>" and "0 \<le> c_fmod x y"
proof -
  have q: "0 \<le> x / y" using assms by simp
  then show e: "c_fmod x y = x - y * of_int \<lfloor>x / y\<rfloor>" by (simp add: c_fmod_def)
  have "of_int \<lfloor>x / y\<rfloor> \<le> x / y" by simp
  then have "of_int \<lfloor>x / y\<rfloor> * y \<le> x"
    by (simp only: pos_le_divide_eq [OF assms(2)])
  then show "0 \<le> c_fmod x y" unfolding e by (simp add: mult.commute)
qed

lemma py_divmod_snd:
  assumes "0 \<le> x" and "0 < y"
  shows "snd (py_divmod x y) = x - y * of_int \<lfloor>x / y\<rfloor>"
proof -
  have mz: "\<not> c_fmod x y < 0" using c_fmod_nonneg(2) [OF assms] by simp
  have yz: "\<not> y < 0" using assms(2) by simp
  have "snd (py_divmod x y) = c_fmod x y"
    by (simp add: py_divmod_def Let_def mz yz)
  then show ?thesis by (simp add: c_fmod_nonneg(1) [OF assms])
qed

lemma py_divmod_fst_nonneg:
  assumes "0 \<le> x" and "0 < y"
  shows "0 \<le> fst (py_divmod x y)"
proof -
  define d where "d = float_div (float_sub x (c_fmod x y)) y"
  have mz: "\<not> c_fmod x y < 0" using c_fmod_nonneg(2) [OF assms] by simp
  have yz: "\<not> y < 0" using assms(2) by simp
  have "0 \<le> x / y" using assms by simp
  then have "(0::real) \<le> of_int \<lfloor>x / y\<rfloor>" by simp
  then have "0 \<le> y * of_int \<lfloor>x / y\<rfloor>"
    using assms(2) by (intro mult_nonneg_nonneg) simp_all
  then have "0 \<le> x - c_fmod x y" by (simp add: c_fmod_nonneg(1) [OF assms])
  then have "0 \<le> float_sub x (c_fmod x y)"
    unfolding float_sub_def by (rule float_round_nonneg)
  then have "0 \<le> float_sub x (c_fmod x y) / y" using assms(2) by simp
  then have d0: "0 \<le> d"
    unfolding d_def float_div_def by (rule float_round_nonneg)
  then have f0: "(0::real) \<le> of_int \<lfloor>d\<rfloor>" by simp
  then have "0 \<le> float_add (of_int \<lfloor>d\<rfloor>) 1"
    unfolding float_add_def by (intro float_round_nonneg) simp
  with f0 have "0 \<le> (if d \<noteq> 0
       then (let f = of_int \<lfloor>d\<rfloor> in if 1 / 2 < float_sub d f then float_add f 1 else f)
       else 0)"
    by (simp add: Let_def)
  moreover have "fst (py_divmod x y) = (if d \<noteq> 0
       then (let f = of_int \<lfloor>d\<rfloor> in if 1 / 2 < float_sub d f then float_add f 1 else f)
       else 0)"
    by (simp add: py_divmod_def Let_def d_def mz yz)
  ultimately show ?thesis by simp
qed

lemma py_divmod_fst_exact:
  assumes "0 \<le> x" and "x \<le> 2 ^ 53" and "0 < b"
  shows "fst (py_divmod x (of_int b)) = of_int \<lfloor>x / of_int b\<rfloor>"
proof -
  define y :: real where "y = of_int b"
  define q where "q = \<lfloor>x / y\<rfloor>"
  have y: "0 < y" "1 \<le> y" using assms(3) by (simp_all add: y_def)
  have q0: "0 \<le> q" using assms(1) y by (simp add: q_def)
  have "of_int q \<le> x / y" by (simp add: q_def)
  then have "of_int q * y \<le> x" by (simp only: pos_le_divide_eq [OF y(1)])
  then have yq: "y * of_int q \<le> x" by (simp add: mult.commute)
  have "of_int q * 1 \<le> of_int q * y"
    using q0 y(2) by (intro mult_left_mono) simp_all
  with yq have qx: "of_int q \<le> x" by (simp add: mult.commute)
  have "real_of_int (b * q) \<le> 2 ^ 53" using yq assms(2) by (simp add: y_def)
  then have "real_of_int (b * q) \<le> real_of_int (2 ^ 53)" by simp
  then have "b * q \<le> 2 ^ 53" by (simp only: of_int_le_iff)
  moreover have "0 \<le> b * q" using q0 assms(3) by simp
  ultimately have bq: "\<bar>b * q\<bar> \<le> 2 ^ 53" by simp
  have "real_of_int q \<le> real_of_int (2 ^ 53)" using qx assms(2) by simp
  then have "q \<le> 2 ^ 53" by (simp only: of_int_le_iff)
  with q0 have qq: "\<bar>q\<bar> \<le> 2 ^ 53" by simp
  have m: "c_fmod x y = x - y * of_int q"
    using c_fmod_nonneg(1) [OF assms(1) y(1)] by (simp add: q_def)
  have mz: "\<not> c_fmod x y < 0" using c_fmod_nonneg(2) [OF assms(1) y(1)] by simp
  have yz: "\<not> y < 0" using y(1) by simp
  have "x - c_fmod x y = y * of_int q" by (simp add: m)
  also have "\<dots> = of_int (b * q)" by (simp add: y_def)
  finally have "float_sub x (c_fmod x y) = of_int (b * q)"
    unfolding float_sub_def using float_round_of_int [OF bq] by simp
  then have "float_sub x (c_fmod x y) / y = of_int q"
    using y(1) by (simp add: y_def)
  then have d: "float_div (float_sub x (c_fmod x y)) y = of_int q"
    unfolding float_div_def using float_round_of_int [OF qq] by simp
  have z: "float_sub (of_int q) (of_int q) = 0"
    by (simp add: float_sub_def float_round_small)
  have "fst (py_divmod x y) = of_int q"
    by (simp add: py_divmod_def Let_def d z mz yz)
  then show ?thesis by (simp add: y_def q_def)
qed

subsection \<open>The shape of a timecode\<close>

lemma format_06_3f_shape:
  assumes "0 \<le> x" and k: "k = nat (round_half_even (x * 1000))" and "k < 100000"
  shows "format_06_3f x =
     [digit_char (k div 10000), digit_char (k div 1000 mod 10), CHR ''.'',
      digit_char (k div 100 mod 10), digit_char (k div 10 mod 10), digit_char (k mod 10)]"
proof -
  have a: "\<bar>x\<bar> = x" using assms(1) by simp
  have q: "k div 1000 < 100" using assms(3) by simp
  have r: "k mod 1000 < 1000" by simp
  have d1: "k mod 1000 div 100 = k div 100 mod 10"
    by (simp add: mod_mult2_eq [of k 100 10, simplified])
  have d2: "k mod 1000 div 10 mod 10 = k div 10 mod 10"
  proof -
    have "k mod 1000 div 10 = k div 10 mod 100"
      by (simp add: mod_mult2_eq [of k 10 100, simplified])
    moreover have "k div 10 mod 100 mod 10 = k div 10 mod 10"
      by (simp add: mod_mod_cancel)
    ultimately show ?thesis by simp
  qed
  have d3: "k mod 1000 mod 10 = k mod 10" by (simp add: mod_mod_cancel)
  have d4: "k div 1000 div 10 = k div 10000" by (simp add: div_mult2_eq [symmetric])
  have body: "zfill 6 (str_nat (k div 1000) @ ''.'' @ zfill 3 (str_nat (k mod 1000))) =
     zfill 2 (str_nat (k div 1000)) @ ''.'' @ zfill 3 (str_nat (k mod 1000))"
  proof (cases "k div 1000 < 10")
    case True
    then show ?thesis
      by (simp add: zfill_def str_nat_lt10 three_digits [OF r, unfolded zfill_def])
  next
    case False
    with q have "str_nat (k div 1000) = [digit_char (k div 1000 div 10), digit_char (k div 1000 mod 10)]"
      by (simp add: str_nat_lt100)
    then show ?thesis
      by (simp add: zfill_def three_digits [OF r, unfolded zfill_def])
  qed
  show ?thesis
    unfolding format_06_3f_def a k [symmetric] Let_def
    using assms(1) body
    by (simp add: two_digits [OF q] three_digits [OF r] d1 d2 d3 d4)
qed

lemma hours_minutes_seconds:
  fixes s :: real
  defines "H \<equiv> \<lfloor>s / 3600\<rfloor>"
  defines "M \<equiv> \<lfloor>(s - 3600 * of_int H) / 60\<rfloor>"
  shows "M = \<lfloor>s / 60\<rfloor> mod 60"
    and "s - 3600 * of_int H - 60 * of_int M = s - 60 * of_int \<lfloor>s / 60\<rfloor>"
proof -
  have "s / 3600 = s / 60 / real_of_int 60" by simp
  then have "H = \<lfloor>s / 60 / real_of_int 60\<rfloor>" by (simp only: H_def)
  also have "\<dots> = \<lfloor>s / 60\<rfloor> div 60" by (rule floor_divide_real_eq_div) simp
  finally have H: "H = \<lfloor>s / 60\<rfloor> div 60" .
  have "(s - 3600 * of_int H) / 60 = s / 60 - of_int (60 * H)" by simp
  then have "M = \<lfloor>s / 60 - of_int (60 * H)\<rfloor>" by (simp only: M_def)
  also have "\<dots> = \<lfloor>s / 60\<rfloor> - 60 * H" by (rule floor_diff_of_int)
  finally have M: "M = \<lfloor>s / 60\<rfloor> - 60 * H" .
  show "M = \<lfloor>s / 60\<rfloor> mod 60"
    unfolding M H by (simp add: minus_mult_div_eq_mod)
  show "s - 3600 * of_int H - 60 * of_int M = s - 60 * of_int \<lfloor>s / 60\<rfloor>"
    unfolding M by simp
qed

lemma format_time_parts:
  assumes "0 \<le> s"
    and H: "H = \<lfloor>s / 3600\<rfloor>"
    and r: "r = s - 3600 * of_int H"
    and M: "M = \<lfloor>r / 60\<rfloor>"
    and sec: "sec = r - 60 * of_int M"
    and k: "k = nat (round_half_even (sec * 1000))"
    and h: "h = nat (py_int (fst (py_divmod s 3600)))"
  shows "format_time s =
           (if h < 10 then ''0'' else []) @ str_nat h @
           [CHR '':'', digit_char (nat M div 10), digit_char (nat M mod 10), CHR '':'',
            digit_char (k div 10000), digit_char (k div 1000 mod 10), CHR '','',
            digit_char (k div 100 mod 10), digit_char (k div 10 mod 10), digit_char (k mod 10)]"
    and "0 \<le> H" and "0 \<le> M" and "M < 60" and "0 \<le> sec" and "sec < 60" and "k \<le> 60000"
    and "\<bar>real k / 1000 - sec\<bar> \<le> 1 / 2000"
    and "s < 2 ^ 53 \<Longrightarrow> int h = H"
    and "int k = round_half_even (sec * 1000)"
proof -
  show H0: "0 \<le> H" using assms(1) by (simp add: H)
  have "of_int H \<le> s / 3600" and "s / 3600 < of_int H + 1"
    unfolding H by linarith+
  then have r0: "0 \<le> r" and r1: "r < 3600" by (simp_all add: r)
  show M0: "0 \<le> M" using r0 by (simp add: M)
  have "r / 60 < 60" using r1 by simp
  then show M1: "M < 60" unfolding M by (simp add: floor_less_iff)
  have "of_int M \<le> r / 60" and "r / 60 < of_int M + 1"
    unfolding M by linarith+
  then show s0: "0 \<le> sec" and s1: "sec < 60" by (simp_all add: sec)
  from s0 have e0: "0 \<le> round_half_even (sec * 1000)"
    by (intro round_half_even_ge) simp
  have "sec * 1000 \<le> of_int 60000" using s1 by simp
  then have e1: "round_half_even (sec * 1000) \<le> 60000" by (rule round_half_even_le)
  from e0 e1 show k1: "k \<le> 60000" by (simp add: k)
  from e0 show "int k = round_half_even (sec * 1000)" by (simp add: k)
  from e0 have rk: "real k = of_int (round_half_even (sec * 1000))" by (simp add: k)
  from round_half_even_near [of "sec * 1000"]
  show "\<bar>real k / 1000 - sec\<bar> \<le> 1 / 2000" unfolding rk by (simp add: field_simps)
  have hq: "0 \<le> fst (py_divmod s 3600)"
    using assms(1) by (intro py_divmod_fst_nonneg) simp_all
  then have h0: "0 \<le> py_int (fst (py_divmod s 3600))" by (simp add: py_int_def)
  have d1: "snd (py_divmod s 3600) = r"
    using py_divmod_snd [OF assms(1), of 3600] by (simp add: r H)
  have "r \<le> 2 ^ 53" using r1 by simp
  from py_divmod_fst_exact [OF r0 this, of 60]
  have d2: "fst (py_divmod r 60) = of_int M" by (simp add: M)
  have d3: "snd (py_divmod r 60) = sec"
    using py_divmod_snd [OF r0, of 60] by (simp add: sec M)
  show "int h = H" if "s < 2 ^ 53"
  proof -
    from that have "s \<le> 2 ^ 53" by simp
    from py_divmod_fst_exact [OF assms(1) this, of 3600]
    have "fst (py_divmod s 3600) = of_int H" by (simp add: H)
    then show ?thesis using H0 by (simp add: h py_int_def)
  qed
  have "format_time s =
      py_replace (CHR ''.'') (CHR '','')
        (format_02d (py_int (fst (py_divmod s 3600))) @ '':'' @
         format_02d (py_int (fst (py_divmod (snd (py_divmod s 3600)) 60))) @ '':'' @
         format_06_3f (snd (py_divmod (snd (py_divmod s 3600)) 60)))"
    by (simp add: format_time_def split_beta)
  also have "py_int (fst (py_divmod s 3600)) = int h"
    using h0 by (simp add: h)
  also have "py_int (fst (py_divmod (snd (py_divmod s 3600)) 60)) = M"
    unfolding d1 d2 using M0 by (simp add: py_int_def)
  also have "snd (py_divmod (snd (py_divmod s 3600)) 60) = sec"
    unfolding d1 d3 ..
  finally have fmt: "format_time s =
      py_replace (CHR ''.'') (CHR '','')
        (format_02d (int h) @ '':'' @ format_02d M @ '':'' @ format_06_3f sec)" .
  have fH: "format_02d (int h) = (if h < 10 then ''0'' else []) @ str_nat h"
    by (simp add: format_02d_def zfill2_str_nat)
  have "nat M < 100" using M1 by simp
  then have fM: "format_02d M = [digit_char (nat M div 10), digit_char (nat M mod 10)]"
    using M0 by (simp add: format_02d_def two_digits)
  have "k < 100000" using k1 by simp
  with s0 k have fS: "format_06_3f sec =
     [digit_char (k div 10000), digit_char (k div 1000 mod 10), CHR ''.'',
      digit_char (k div 100 mod 10), digit_char (k div 10 mod 10), digit_char (k mod 10)]"
    by (rule format_06_3f_shape)
  have nd: "\<And>d. d < 10 \<Longrightarrow> digit_char d \<noteq> CHR ''.''" by (rule digit_char_not_dot)
  have m10: "nat M div 10 < 10" using M1 by simp
  have k4: "k div 10000 < 10" using k1 by simp
  show "format_time s =
           (if h < 10 then ''0'' else []) @ str_nat h @
           [CHR '':'', digit_char (nat M div 10), digit_char (nat M mod 10), CHR '':'',
            digit_char (k div 10000), digit_char (k div 1000 mod 10), CHR '','',
            digit_char (k div 100 mod 10), digit_char (k div 10 mod 10), digit_char (k mod 10)]"
    unfolding fmt fH fM fS
    by (simp add: py_replace_def nd m10 k4
        py_replace_no_dot [OF str_nat_no_dot, unfolded py_replace_def])
qed

text \<open>Evaluation of the formatter on numerals.\<close>

lemma replicate_small:
  "replicate 2 c = [c, c]" "replicate 3 c = [c, c, c]"
  by (simp_all add: numeral_2_eq_2 numeral_3_eq_3)

lemmas eval_defs = format_time_def py_divmod_def c_fmod_def float_add_def float_sub_def
  float_div_def float_round_numeral float_round_small py_int_def format_02d_def
  format_06_3f_def zfill_def round_half_even_def digit_char_def py_replace_def
  truncated_timecode_def str_nat.simps Let_def replicate_small

text \<open>
  Above \<open>2 ^ 53\<close> the quotient of \<open>divmod\<close> is a rounded one. At \<open>1e22\<close> the
  difference \<open>vx - mod\<close> rounds back to \<open>1e22\<close> and the division by 3600 rounds to a
  multiple of 512: the hours printed are \<open>2777777777777777664\<close>, where
  \<open>\<lfloor>1e22 / 3600\<rfloor>\<close> is \<open>2777777777777777777\<close>.
\<close>

lemma py_divmod_at_1e22:
  "py_divmod 10000000000000000000000 3600 = (2777777777777777664, 2800)"
proof -
  have m: "c_fmod 10000000000000000000000 3600 = 2800" by (simp add: c_fmod_def)
  have "float_round (10000000000000000000000 - 2800) = 10000000000000000000000"
    by (subst float_round_binade [of 73]) (simp_all add: round_half_even_def)
  then have s: "float_sub 10000000000000000000000 2800 = 10000000000000000000000"
    by (simp add: float_sub_def)
  have "float_round (10000000000000000000000 / 3600) = 2777777777777777664"
    by (subst float_round_binade [of 61]) (simp_all add: round_half_even_def)
  then have d: "float_div 10000000000000000000000 3600 = 2777777777777777664"
    by (simp add: float_div_def)
  have z: "float_sub 2777777777777777664 2777777777777777664 = 0"
    by (simp add: float_sub_def float_round_small)
  show ?thesis
    by (simp add: py_divmod_def Let_def m s d z)
qed

lemma format_time_at_1e22:
  "format_time 10000000000000000000000 = ''2777777777777777664:46:40,000''"
  unfolding format_time_def py_divmod_at_1e22 by (simp add: eval_defs)

subsection \<open>Hours, minutes, seconds and milliseconds\<close>

text \<open>
  Claim C5, as the code has it. Let \<open>s\<close> be a non-negative number of seconds whose
  seconds within the minute, \<open>s - 60 * \<lfloor>s / 60\<rfloor>\<close>, are below \<open>59.9995\<close>. The
  formatter returns \<open>HH:MM:SS,mmm\<close>, where \<open>HH\<close> is the decimal numeral of the hours,
  padded with a zero to two digits and never reduced modulo 24 (the hours are
  \<open>\<lfloor>s / 3600\<rfloor>\<close> for \<open>s\<close> below \<open>2 ^ 53\<close>), \<open>MM\<close> is the two digits of the minutes
  \<open>\<lfloor>s / 60\<rfloor> mod 60\<close>, the separator before the milliseconds is a comma, and
  \<open>SS,mmm\<close> are the five digits of \<open>k\<close>, the seconds within the minute in
  milliseconds rounded to the nearest integer, ties to even: \<open>k\<close> is below \<open>60000\<close>
  and differs from the exact value by at most half a millisecond. The milliseconds are
  rounded by the format specification \<open>06.3f\<close>, not truncated.
\<close>

theorem timecode_rounds_to_nearest_millisecond:
  assumes "0 \<le> s" and "s - 60 * of_int \<lfloor>s / 60\<rfloor> < 59.9995"
  shows "\<exists>h m k.
     (s < 2 ^ 53 \<longrightarrow> int h = \<lfloor>s / 3600\<rfloor>) \<and>
     int m = \<lfloor>s / 60\<rfloor> mod 60 \<and>
     int k = round_half_even ((s - 60 * of_int \<lfloor>s / 60\<rfloor>) * 1000) \<and>
     k < 60000 \<and>
     \<bar>real k / 1000 - (s - 60 * of_int \<lfloor>s / 60\<rfloor>)\<bar> \<le> 1 / 2000 \<and>
     format_time s =
       (if h < 10 then ''0'' else []) @ str_nat h @
       [CHR '':'', digit_char (m div 10), digit_char (m mod 10), CHR '':'',
        digit_char (k div 10000), digit_char (k div 1000 mod 10), CHR '','',
        digit_char (k div 100 mod 10), digit_char (k div 10 mod 10), digit_char (k mod 10)]"
proof -
  define H where "H = \<lfloor>s / 3600\<rfloor>"
  define r where "r = s - 3600 * of_int H"
  define M where "M = \<lfloor>r / 60\<rfloor>"
  define sec where "sec = r - 60 * of_int M"
  define k where "k = nat (round_half_even (sec * 1000))"
  define h where "h = nat (py_int (fst (py_divmod s 3600)))"
  note p = format_time_parts [OF assms(1) H_def r_def M_def sec_def k_def h_def]
  have M': "M = \<lfloor>s / 60\<rfloor> mod 60"
    unfolding M_def r_def H_def by (rule hours_minutes_seconds(1))
  have sec': "sec = s - 60 * of_int \<lfloor>s / 60\<rfloor>"
    unfolding sec_def M_def r_def H_def by (rule hours_minutes_seconds(2))
  have "sec * 1000 < of_int 60000 - 1 / 2" using assms(2) by (simp add: sec')
  then have "round_half_even (sec * 1000) < 60000" by (rule round_half_even_less)
  with p(10) have k6: "k < 60000" by simp
  have "s < 2 ^ 53 \<longrightarrow> int h = \<lfloor>s / 3600\<rfloor>" using p(9) by (simp add: H_def)
  moreover have "int (nat M) = \<lfloor>s / 60\<rfloor> mod 60" using p(3) M' by simp
  moreover have "int k = round_half_even ((s - 60 * of_int \<lfloor>s / 60\<rfloor>) * 1000)"
    using p(10) by (simp add: sec')
  moreover have "\<bar>real k / 1000 - (s - 60 * of_int \<lfloor>s / 60\<rfloor>)\<bar> \<le> 1 / 2000"
    using p(8) by (simp add: sec')
  ultimately show ?thesis
    using p(1) k6 by blast
qed

theorem timecode_rounds_to_nearest_millisecond_witness:
  "(0::real) \<le> 3725.5 \<and> 3725.5 - 60 * of_int \<lfloor>3725.5 / 60 :: real\<rfloor> < (59.9995::real) \<and>
   format_time 3725.5 = ''01:02:05,500''"
proof -
  have a: "(0::real) \<le> 3725.5" by simp
  have b: "3725.5 - 60 * of_int \<lfloor>3725.5 / 60 :: real\<rfloor> < (59.9995::real)" by simp
  from timecode_rounds_to_nearest_millisecond [OF a b]
  obtain h m k where
    h: "(3725.5::real) < 2 ^ 53 \<longrightarrow> int h = \<lfloor>(3725.5::real) / 3600\<rfloor>" and
    m: "int m = \<lfloor>(3725.5::real) / 60\<rfloor> mod 60" and
    k: "int k = round_half_even ((3725.5 - 60 * of_int \<lfloor>3725.5 / 60 :: real\<rfloor>) * 1000)" and
    f: "format_time 3725.5 =
       (if h < 10 then ''0'' else []) @ str_nat h @
       [CHR '':'', digit_char (m div 10), digit_char (m mod 10), CHR '':'',
        digit_char (k div 10000), digit_char (k div 1000 mod 10), CHR '','',
        digit_char (k div 100 mod 10), digit_char (k div 10 mod 10), digit_char (k mod 10)]"
    by blast
  from h have h1: "h = 1" by simp
  from m have m2: "m = 2" by simp
  from k have k5: "k = 5500" by (simp add: round_half_even_def)
  have "format_time 3725.5 = ''01:02:05,500''"
    unfolding f h1 m2 k5 by (simp add: digit_char_def str_nat.simps)
  with a b show ?thesis by simp
qed

text \<open>
  The float \<open>0.0009765625 = 1 / 1024\<close> lies above half a millisecond: the formatter
  prints \<open>,001\<close>, where truncation gives \<open>,000\<close>. The float nearest to \<open>3725.6\<close>,
  \<open>8192681040884531 / 2199023255552\<close>, lies below \<open>3725.6\<close>: truncation gives
  \<open>,599\<close>, where the formatter prints \<open>,600\<close>.
\<close>

theorem timecode_is_rounded_not_truncated:
  "format_time (1 / 1024) = ''00:00:00,001'' \<and>
   truncated_timecode (1 / 1024) = ''00:00:00,000'' \<and>
   format_time (8192681040884531 / 2199023255552) = ''01:02:05,600'' \<and>
   truncated_timecode (8192681040884531 / 2199023255552) = ''01:02:05,599''"
  by (simp add: eval_defs)

subsection \<open>Two timecodes\<close>

text \<open>
  Claim C6. The formatter applied to \<open>0.0\<close> returns \<open>00:00:00,000\<close>, and applied to
  \<open>3725.6\<close> it returns \<open>01:02:05,600\<close>. The Python literal \<open>3725.6\<close> denotes the
  float \<open>8192681040884531 / 2199023255552\<close>; the result is the same for that float and
  for the decimal number itself.
\<close>

theorem timecode_of_zero_and_of_3725_6:
  "format_time 0 = ''00:00:00,000'' \<and>
   format_time (8192681040884531 / 2199023255552) = ''01:02:05,600'' \<and>
   format_time 3725.6 = ''01:02:05,600''"
  by (simp add: eval_defs)

end
